theory Spec2Isabelle
  imports Main "HOL-Library.AList"
begin

section \<open>JavaScript string primitives used by Domain\<close>

text \<open>
  \<^verbatim>\<open>Array.prototype.join(sep)\<close> on an array of strings: the empty array gives the
  empty string, otherwise the elements separated by \<open>sep\<close>.
\<close>

fun js_join :: "string \<Rightarrow> string list \<Rightarrow> string" where
  "js_join sep [] = []"
| "js_join sep [x] = x"
| "js_join sep (x # y # ys) = x @ sep @ js_join sep (y # ys)"

text \<open>
  \<^verbatim>\<open>String.prototype.split(c)\<close> for a one-character separator: the string is cut
  at every occurrence of \<open>c\<close>; the result always has at least one element (the empty
  string splits into one empty segment).
\<close>

fun js_split :: "char \<Rightarrow> string \<Rightarrow> string list" where
  "js_split c [] = [[]]"
| "js_split c (x # xs) =
     (if x = c then [] # js_split c xs
      else (x # hd (js_split c xs)) # tl (js_split c xs))"

subsection \<open>JSON.stringify on the values that occur in a signable\<close>

text \<open>
  Strings are sequences of code units; \<^typ>\<open>char\<close> covers the code units 0 to 255.
  \<^verbatim>\<open>JSON.stringify\<close> quotes a string and escapes the double quote, the backslash and
  the control characters below 0x20 (short escapes for backspace, tab, newline, form feed
  and carriage return, \<^verbatim>\<open>\u00xx\<close> with lower-case hexadecimal digits for the others).
\<close>

definition hex_digit :: "nat \<Rightarrow> char" where
  "hex_digit n = ''0123456789abcdef'' ! (n mod 16)"

definition json_escape :: "char \<Rightarrow> string" where
  "json_escape ch =
     (if ch = CHR 0x22 then [CHR 0x5C, CHR 0x22]
      else if ch = CHR 0x5C then [CHR 0x5C, CHR 0x5C]
      else if ch = CHR 0x08 then [CHR 0x5C, CHR ''b'']
      else if ch = CHR 0x0C then [CHR 0x5C, CHR ''f'']
      else if ch = CHR 0x0A then [CHR 0x5C, CHR ''n'']
      else if ch = CHR 0x0D then [CHR 0x5C, CHR ''r'']
      else if ch = CHR 0x09 then [CHR 0x5C, CHR ''t'']
      else if (of_char ch :: nat) < 32
        then [CHR 0x5C, CHR ''u'', CHR ''0'', CHR ''0'',
              hex_digit (of_char ch div 16), hex_digit (of_char ch mod 16)]
      else [ch])"

definition json_string :: "string \<Rightarrow> string" where
  "json_string s = CHR 0x22 # concat (map json_escape s) @ [CHR 0x22]"

definition json_array :: "string list \<Rightarrow> string" where
  "json_array xs = ''['' @ js_join '','' (map json_string xs) @ '']''"

text \<open>
  An object literal is stringified property by property in the order the literal lists
  them; a property whose value is \<^verbatim>\<open>undefined\<close> (here \<open>None\<close>) is left out.
\<close>

fun json_props :: "(string \<times> string option) list \<Rightarrow> string list" where
  "json_props [] = []"
| "json_props ((k, None) # ps) = json_props ps"
| "json_props ((k, Some v) # ps) = (json_string k @ '':'' @ v) # json_props ps"

definition json_object :: "(string \<times> string option) list \<Rightarrow> string" where
  "json_object ps = ''{'' @ js_join '','' (json_props ps) @ ''}''"

section \<open>Data model: Name and Domain records\<close>

text \<open>
  One entry of \<^verbatim>\<open>signatures\<close>. A \<^verbatim>\<open>Date\<close> is kept as the ISO text that
  \<^verbatim>\<open>JSON.stringify\<close> sees through \<^verbatim>\<open>toJSON\<close>.
\<close>

record sig =
  date :: string
  signature :: string
  signedby :: string

datatype kind = NameK | DomainK

text \<open>The key material of a \<^verbatim>\<open>KeyPair\<close>, opaque to this module.\<close>

type_synonym keypair = string

text \<open>
  The fields of a Name or Domain object. Fields that the code creates or tests as
  possibly \<^verbatim>\<open>undefined\<close> are options: a Name has no \<^verbatim>\<open>keys\<close>, \<^verbatim>\<open>p_new\<close>
  tests \<^verbatim>\<open>keys\<close> and \<^verbatim>\<open>keypair\<close>, \<^verbatim>\<open>p_register\<close> falls back from
  \<^verbatim>\<open>_publicurls\<close> to \<^verbatim>\<open>_urls\<close>, and the test creates the root with
  \<^verbatim>\<open>expires: undefined\<close>. \<^verbatim>\<open>signatures\<close> is always a list
  (\<^verbatim>\<open>nameConstructor\<close>), and \<^verbatim>\<open>fullnames\<close> is given wherever the code
  builds a Name or a Domain. The fields \<open>publicurls\<close>, \<open>master\<close>, \<open>autoset\<close>
  and \<open>urls\<close> are \<^verbatim>\<open>_publicurls\<close>, \<^verbatim>\<open>_master\<close>, \<^verbatim>\<open>_autoset\<close> and
  \<^verbatim>\<open>_urls\<close>; \<open>kv_map\<close> below is \<^verbatim>\<open>_map\<close>.
\<close>

record fields =
  cls :: kind
  fullnames :: "string list"
  keys :: "string list option"
  publicurls :: "string list option"
  expires :: "string option"
  signatures :: "sig list"
  keypair :: "keypair option"
  master :: bool
  autoset :: bool
  urls :: "string list"

text \<open>
  An object with its \<^verbatim>\<open>_map\<close>, the table of the names beneath it (empty for a
  Name), as an association list with each key once. The operations modelled here do not
  read the order of the keys.
\<close>

datatype obj = Obj (flds: fields) (kv_map: "(string \<times> obj) list")

datatype error = TypeError | AssertionError

type_synonym console = "string list list"

section \<open>External collaborators\<close>

text \<open>
  The signature primitive of \<^verbatim>\<open>Dweb.KeyPair\<close> is a parameter of the model:
  \<open>kp_sign kp payload\<close> is \<^verbatim>\<open>kp.sign(payload)\<close>, \<open>kp_verify key payload s\<close> is
  \<^verbatim>\<open>new Dweb.KeyPair({key}).verify(payload, s)\<close> and \<open>signingexport kp\<close> is
  \<^verbatim>\<open>kp.signingexport()\<close>.
\<close>

record crypto =
  kp_sign :: "keypair \<Rightarrow> string \<Rightarrow> string"
  kp_verify :: "string \<Rightarrow> string \<Rightarrow> string \<Rightarrow> bool"
  signingexport :: "keypair \<Rightarrow> string"

text \<open>A signature made by a key pair verifies under its exported public key.\<close>

definition crypto_correct :: "crypto \<Rightarrow> bool" where
  "crypto_correct c =
     (\<forall>kp m. kp_verify c (signingexport c kp) m (kp_sign c kp m))"

text \<open>
  A signature verifies against no payload but the one that was signed (the symbolic
  reading of unforgeability).
\<close>

definition crypto_binding :: "crypto \<Rightarrow> bool" where
  "crypto_binding c =
     (\<forall>kp pk m m'. kp_verify c pk m' (kp_sign c kp m) \<longrightarrow> m' = m)"

text \<open>
  Modelled from the spec: \<^verbatim>\<open>KeyValueTable.p_get\<close>, which is not part of the
  sources at hand (the table get of the external interfaces,
  \<open>get(key) -> Record-or-absent\<close>), read from \<^verbatim>\<open>_map\<close>.
\<close>

definition p_get :: "obj \<Rightarrow> string \<Rightarrow> obj option" where
  "p_get this key = map_of (kv_map this) key"

text \<open>
  Modelled from the spec: \<^verbatim>\<open>SmartDict._after_fetch\<close>, which is not part of the
  sources at hand (fetch-normalize: the typed record for a fetched value). The table
  holds typed records, which it returns unchanged.
\<close>

definition after_fetch :: "obj \<Rightarrow> obj" where
  "after_fetch v = v"

section \<open>NameMixin and Domain\<close>

definition signable :: "obj \<Rightarrow> string list \<Rightarrow> string \<Rightarrow> string \<Rightarrow> string" where
  "signable this domains name dt =
     json_object
       [(''date'', Some (json_string dt)),
        (''domains'', Some (json_array domains)),
        (''name'', Some (json_string name)),
        (''keys'', map_option json_array (keys (flds this))),
        (''_publicurls'', map_option json_array (publicurls (flds this))),
        (''expires'', map_option json_string (expires (flds this)))]"

text \<open>
  \<^verbatim>\<open>Domain.p_new\<close> after the superclass has built the object: a master domain
  with a key pair and no keys gets the exported signing key as its only key.
\<close>

definition p_new :: "crypto \<Rightarrow> obj \<Rightarrow> obj" where
  "p_new c ob =
     (if master (flds ob) \<and> keypair (flds ob) \<noteq> None \<and>
         \<not> (case keys (flds ob) of None \<Rightarrow> False | Some ks \<Rightarrow> length ks \<noteq> 0)
      then (case keypair (flds ob) of
              Some kp \<Rightarrow> Obj ((flds ob)\<lparr>keys := Some [signingexport c kp]\<rparr>) (kv_map ob)
            | None \<Rightarrow> ob)
      else ob)"

text \<open>
  \<^verbatim>\<open>p_set\<close>: the un-awaited call to the transports when \<^verbatim>\<open>_autoset\<close> is
  on (returned as the list of publications), then the write to \<^verbatim>\<open>_map\<close>.
\<close>

definition p_set :: "obj \<Rightarrow> string \<Rightarrow> obj \<Rightarrow> obj \<times> (string list \<times> string \<times> obj) list" where
  "p_set this name v =
     (Obj (flds this) (AList.update name (after_fetch v) (kv_map this)),
      if autoset (flds this) then [(urls (flds this), name, v)] else [])"

text \<open>
  \<^verbatim>\<open>sign\<close>: \<open>now\<close> is \<^verbatim>\<open>new Date(Date.now())\<close>. Without a key pair
  \<^verbatim>\<open>this.keypair.sign\<close> is a TypeError. The result is the subdomain with the new
  signature pushed.
\<close>

definition sign :: "crypto \<Rightarrow> string \<Rightarrow> obj \<Rightarrow> string \<Rightarrow> obj \<Rightarrow> error + obj" where
  "sign c now this name subdomain =
     (let d = now;
          sb = signable subdomain (fullnames (flds this)) name d
      in case keypair (flds this) of
           None \<Rightarrow> Inl TypeError
         | Some kp \<Rightarrow>
             Inr (Obj ((flds subdomain)\<lparr>signatures := signatures (flds subdomain) @
                         [\<lparr>date = d, signature = kp_sign c kp sb, signedby = signingexport c kp\<rparr>]\<rparr>)
                      (kv_map subdomain)))"

text \<open>
  The subdomain as \<^verbatim>\<open>this.sign(name, subdomain)\<close> leaves it: with the signature
  pushed, or untouched when the call threw before the push.
\<close>

definition signed_by :: "crypto \<Rightarrow> string \<Rightarrow> obj \<Rightarrow> string \<Rightarrow> obj \<Rightarrow> obj" where
  "signed_by c now this name sub =
     (case sign c now this name sub of Inr r \<Rightarrow> r | Inl e \<Rightarrow> sub)"

text \<open>
  \<^verbatim>\<open>verify\<close>: the filter callback reads \<^verbatim>\<open>this.keys.includes\<close>, a TypeError
  when \<^verbatim>\<open>keys\<close> is undefined and there is a signature to test.
\<close>

definition verify :: "crypto \<Rightarrow> obj \<Rightarrow> string \<Rightarrow> obj \<Rightarrow> error + bool" where
  "verify c this name subdomain =
     (if signatures (flds subdomain) = [] then Inr False
      else case keys (flds this) of
             None \<Rightarrow> Inl TypeError
           | Some ks \<Rightarrow>
               Inr (list_ex
                      (\<lambda>s. kp_verify c (signedby s)
                             (signable subdomain (fullnames (flds this)) name (date s))
                             (signature s))
                      (filter (\<lambda>s. signedby s \<in> set ks) (signatures (flds subdomain)))))"

text \<open>
  What \<^verbatim>\<open>p_register\<close> is given: a Domain or Name, or any other object, of which
  only \<^verbatim>\<open>_publicurls\<close> and \<^verbatim>\<open>_urls\<close> are read.
\<close>

datatype registrable =
  Record obj
| Other (other_publicurls: "string list option") (other_urls: "string list option")

text \<open>\<^verbatim>\<open>new Name({fullnames, _publicurls})\<close>: no keys, no expiry, no signatures.\<close>

definition new_Name :: "string list \<Rightarrow> string list option \<Rightarrow> obj" where
  "new_Name fns pu =
     Obj \<lparr>cls = NameK, fullnames = fns, keys = None, publicurls = pu, expires = None,
          signatures = [], keypair = None, master = False, autoset = False, urls = []\<rparr>
         []"

text \<open>
  The state after \<^verbatim>\<open>p_register\<close>: whether the promise rejected, the domain, the
  record that was signed, what \<^verbatim>\<open>console.assert\<close> printed and what was handed to
  the transports.
\<close>

record reg_result =
  rejected :: "error option"
  domain_after :: obj
  registered :: obj
  console_out :: console
  published :: "(string list \<times> string \<times> obj) list"

text \<open>
  \<^verbatim>\<open>p_register\<close>. What \<^verbatim>\<open>console.assert\<close> does with a false value is the
  runtime's: it throws an AssertionError (Node before version 10), which rejects the
  promise before \<^verbatim>\<open>p_set\<close> is reached, or it prints and returns (browsers, later
  Node). \<open>assert_throws\<close> says which; in both the signature has been pushed already.

  Objects are passed by value here: \<open>registered\<close> and \<open>domain_after\<close> are the two
  objects the call has changed. This describes a registrable that is another object than
  the domain and than the objects already in its table; for those the code changes one
  shared object, which the two values do not show.
\<close>

definition p_register ::
  "crypto \<Rightarrow> bool \<Rightarrow> string \<Rightarrow> obj \<Rightarrow> string \<Rightarrow> registrable \<Rightarrow> reg_result" where
  "p_register c assert_throws now this name registrable =
     (let reg =
        (case registrable of
           Record r \<Rightarrow> r
         | Other pu u \<Rightarrow>
             new_Name (map (\<lambda>fn. js_join ''/'' [fn, name]) (fullnames (flds this)))
                      (case pu of Some x \<Rightarrow> Some x | None \<Rightarrow> u))
      in case sign c now this name reg of
           Inl e \<Rightarrow>
             \<lparr>rejected = Some e, domain_after = this, registered = reg,
              console_out = [], published = []\<rparr>
         | Inr reg' \<Rightarrow>
             (case verify c this name reg' of
                Inl e \<Rightarrow>
                  \<lparr>rejected = Some e, domain_after = this, registered = reg',
                   console_out = [], published = []\<rparr>
              | Inr ok \<Rightarrow>
                  if \<not> ok \<and> assert_throws
                  then \<lparr>rejected = Some AssertionError, domain_after = this,
                        registered = reg', console_out = [], published = []\<rparr>
                  else \<lparr>rejected = None, domain_after = fst (p_set this name reg'),
                        registered = reg',
                        console_out = (if ok then [] else [[''Assertion failed'']]),
                        published = snd (p_set this name reg')\<rparr>))"

subsection \<open>Resolution\<close>

text \<open>
  The \<^verbatim>\<open>while\<close> loop of \<^verbatim>\<open>p_resolve\<close>. The state is \<^verbatim>\<open>pathArray\<close>,
  \<^verbatim>\<open>remainder\<close> and the keys handed to \<^verbatim>\<open>p_get\<close> so far; the result is
  \<^verbatim>\<open>res\<close> with the final state.
\<close>

function lookup_loop ::
  "obj \<Rightarrow> string list \<Rightarrow> string list \<Rightarrow> string list
     \<Rightarrow> obj option \<times> string list \<times> string list \<times> string list" where
  "lookup_loop this pathArray remainder tried =
     (if length pathArray > 0 then
        (let key = js_join ''/'' pathArray; res = p_get this key
         in if res \<noteq> None then (res, pathArray, remainder, tried @ [key])
            else lookup_loop this (butlast pathArray) (last pathArray # remainder)
                   (tried @ [key]))
      else (None, pathArray, remainder, tried))"
  by pat_completeness auto
termination
  by (relation "measure (\<lambda>(this, pathArray, remainder, tried). length pathArray)") auto

declare lookup_loop.simps [simp del]

text \<open>
  \<^verbatim>\<open>p_resolve\<close>: the value the promise resolves to (\<open>None\<close> is
  \<^verbatim>\<open>undefined\<close>) or the error it rejects with, and the lines written to the console.
  A Name has no \<^verbatim>\<open>p_resolve\<close>, so descending into one is a TypeError.
\<close>

function p_resolve :: "obj \<Rightarrow> string \<Rightarrow> bool \<Rightarrow> (error + obj option) \<times> console" where
  "p_resolve this path verbose =
     (let log0 =
        (if verbose
         then [[''resolving'', path, ''in'', js_join '', '' (fullnames (flds this))]]
         else [])
      in case lookup_loop this (js_split (CHR ''/'') path) [] [] of
           (Some r, pathArray, remainder, tried) \<Rightarrow>
             (let res = after_fetch r
              in if remainder = [] then (Inr (Some res), log0)
                 else if cls (flds res) = DomainK
                   then (case p_resolve res (js_join ''/'' remainder) verbose of
                           (v, lg) \<Rightarrow> (v, log0 @ lg))
                   else (Inl TypeError, log0))
         | (None, pathArray, remainder, tried) \<Rightarrow>
             (Inr None,
              log0 @ [[''Unable to completely resolve'', path, ''in'',
                       js_join '', '' (fullnames (flds this))]]))"
  by pat_completeness auto

section \<open>Example objects\<close>

text \<open>
  A symbolic signature primitive for the examples: the exported key is the key material,
  a signature is the quoted key followed by the payload, and verification compares.
\<close>

definition toy_crypto :: crypto where
  "toy_crypto =
     \<lparr>kp_sign = (\<lambda>kp m. json_string kp @ m),
      kp_verify = (\<lambda>pk m s. s = json_string pk @ m),
      signingexport = (\<lambda>kp. kp)\<rparr>"

text \<open>A master domain as \<^verbatim>\<open>p_test\<close> creates them, with one key pair and its key.\<close>

definition example_domain :: "string list \<Rightarrow> keypair \<Rightarrow> (string \<times> obj) list \<Rightarrow> obj" where
  "example_domain fns kp m =
     Obj \<lparr>cls = DomainK, fullnames = fns, keys = Some [kp], publicurls = None,
          expires = None, signatures = [], keypair = Some kp, master = True,
          autoset = False, urls = []\<rparr> m"

definition example_item :: obj where
  "example_item = new_Name [''/a/item1''] (Some [''loc://item1''])"

definition example_other :: obj where
  "example_other = new_Name [''/a/b/c''] (Some [''loc://other''])"

text \<open>A root with the key \<^verbatim>\<open>a/b\<close>, alone and beside the longer key \<^verbatim>\<open>a/b/c\<close>.\<close>

definition example_sub :: obj where
  "example_sub = example_domain [''/a/b''] ''k2'' [(''c'', example_item)]"

definition example_root :: obj where
  "example_root = example_domain [''/''] ''k'' [(''a/b'', example_sub)]"

definition example_root_shadowed :: obj where
  "example_root_shadowed =
     example_domain [''/''] ''k'' [(''a/b'', example_sub), (''a/b/c'', example_other)]"

text \<open>
  A Domain object that is not a master copy and was built without keys: \<^verbatim>\<open>p_new\<close>
  leaves its \<^verbatim>\<open>keys\<close> undefined.
\<close>

definition example_keyless :: obj where
  "example_keyless =
     Obj \<lparr>cls = DomainK, fullnames = [''/''], keys = None, publicurls = None,
          expires = None, signatures = [], keypair = None, master = False,
          autoset = False, urls = []\<rparr> []"

text \<open>Two signing times.\<close>

definition example_now :: string where
  "example_now = ''2018-05-01T10:00:00.000Z''"

definition example_later :: string where
  "example_later = ''2018-06-01T10:00:00.000Z''"

section \<open>Splitting and joining\<close>

lemma js_split_nonempty: "js_split c s \<noteq> []"
  by (induction s) auto

lemma js_join_Cons: "ys \<noteq> [] \<Longrightarrow> js_join sep (x # ys) = x @ sep @ js_join sep ys"
  by (cases ys) auto

lemma js_join_append:
  "xs \<noteq> [] \<Longrightarrow> ys \<noteq> [] \<Longrightarrow>
     js_join sep (xs @ ys) = js_join sep xs @ sep @ js_join sep ys"
  by (induction sep xs rule: js_join.induct) (auto simp: js_join_Cons)

lemma js_join_split: "js_join [c] (js_split c s) = s"
proof (induction s)
  case Nil
  then show ?case by simp
next
  case (Cons x xs)
  obtain y ys where ys: "js_split c xs = y # ys"
    using js_split_nonempty [of c xs] by (cases "js_split c xs") auto
  show ?case
  proof (cases "x = c")
    case True
    then show ?thesis using Cons by (simp add: js_join_Cons js_split_nonempty)
  next
    case False
    then show ?thesis using Cons ys by (cases ys) auto
  qed
qed

section \<open>The lookup loop\<close>

lemma lookup_loop_Nil: "lookup_loop this [] rem tr = (None, [], rem, tr)"
  by (subst lookup_loop.simps) simp

lemma lookup_loop_hit:
  "pa \<noteq> [] \<Longrightarrow> p_get this (js_join ''/'' pa) = Some r \<Longrightarrow>
     lookup_loop this pa rem tr = (Some r, pa, rem, tr @ [js_join ''/'' pa])"
  by (subst lookup_loop.simps) simp

lemma lookup_loop_miss:
  "pa \<noteq> [] \<Longrightarrow> p_get this (js_join ''/'' pa) = None \<Longrightarrow>
     lookup_loop this pa rem tr =
       lookup_loop this (butlast pa) (last pa # rem) (tr @ [js_join ''/'' pa])"
  by (subst lookup_loop.simps) simp

lemma lookup_loop_inv:
  "lookup_loop this pa rem tr = (res, pa', rem', tr') \<Longrightarrow>
     pa' @ rem' = pa @ rem \<and>
     (case res of
        None \<Rightarrow> pa' = []
      | Some r \<Rightarrow> pa' \<noteq> [] \<and> p_get this (js_join ''/'' pa') = Some r)"
proof (induction this pa rem tr rule: lookup_loop.induct)
  case (1 this pathArray remainder tried)
  show ?case
  proof (cases "pathArray = []")
    case True
    then show ?thesis using "1.prems" by (simp add: lookup_loop_Nil)
  next
    case False
    note ne = False
    show ?thesis
    proof (cases "p_get this (js_join ''/'' pathArray)")
      case None
      then have "lookup_loop this (butlast pathArray) (last pathArray # remainder)
                   (tried @ [js_join ''/'' pathArray]) = (res, pa', rem', tr')"
        using "1.prems" ne by (simp add: lookup_loop_miss)
      from "1.IH" [OF _ refl refl _ this] ne None
      show ?thesis by simp
    next
      case (Some r)
      from lookup_loop_hit [OF ne Some, of remainder tried] "1.prems"
      have "res = Some r" "pa' = pathArray" "rem' = remainder" by simp_all
      then show ?thesis using ne Some by simp
    qed
  qed
qed

lemma p_resolve_shrinks:
  assumes "lookup_loop this (js_split (CHR ''/'') path) [] [] = (Some r, pa, rem, tr)"
    and "rem \<noteq> []"
  shows "length (js_join ''/'' rem) < length path"
proof -
  from lookup_loop_inv [OF assms(1)]
  have eq: "pa @ rem = js_split (CHR ''/'') path" and ne: "pa \<noteq> []" by auto
  have "path = js_join ''/'' (pa @ rem)"
    using js_join_split [of "CHR ''/''" path] eq by simp
  also have "\<dots> = js_join ''/'' pa @ ''/'' @ js_join ''/'' rem"
    using ne assms(2) by (rule js_join_append)
  finally show ?thesis by simp
qed

termination p_resolve
  apply (relation "measure (\<lambda>(this, path, verbose). length path)")
   apply simp
  apply (auto dest: p_resolve_shrinks [OF sym])
  done

declare p_resolve.simps [simp del]

lemma lookup_loop_all_miss:
  "(\<forall>k. 0 < k \<and> k \<le> length pa \<longrightarrow> p_get this (js_join ''/'' (take k pa)) = None) \<Longrightarrow>
   lookup_loop this pa rem tr =
     (None, [], pa @ rem, tr @ map (\<lambda>k. js_join ''/'' (take k pa)) (rev [1..<Suc (length pa)]))"
proof (induction pa arbitrary: rem tr rule: rev_induct)
  case Nil
  then show ?case by (simp add: lookup_loop_Nil)
next
  case (snoc x xs)
  have miss: "p_get this (js_join ''/'' (xs @ [x])) = None"
    using snoc.prems [rule_format, of "Suc (length xs)"] by simp
  have sub: "\<forall>k. 0 < k \<and> k \<le> length xs \<longrightarrow> p_get this (js_join ''/'' (take k xs)) = None"
    using snoc.prems by (auto simp: )
  have maps: "map (\<lambda>k. js_join ''/'' (take k (xs @ [x]))) (rev [1..<Suc (length xs)])
            = map (\<lambda>k. js_join ''/'' (take k xs)) (rev [1..<Suc (length xs)])"
    by (rule map_cong) auto
  have "lookup_loop this (xs @ [x]) rem tr =
          lookup_loop this xs (x # rem) (tr @ [js_join ''/'' (xs @ [x])])"
    using lookup_loop_miss [OF _ miss, of rem tr] by simp
  also have "\<dots> = (None, [], xs @ x # rem,
      (tr @ [js_join ''/'' (xs @ [x])]) @ map (\<lambda>k. js_join ''/'' (take k xs)) (rev [1..<Suc (length xs)]))"
    by (rule snoc.IH [OF sub])
  finally show ?case using maps by simp
qed

lemma lookup_loop_trace:
  "lookup_loop this pa rem tr = (res, pa', rem', tr') \<Longrightarrow>
     \<exists>n. n \<le> length pa \<and>
         tr' = tr @ map (\<lambda>i. js_join ''/'' (take (length pa - i) pa)) [0..<n] \<and>
         (case res of None \<Rightarrow> n = length pa | Some r \<Rightarrow> 0 < n \<and> pa' = take (length pa - n + 1) pa)"
proof (induction pa arbitrary: rem tr rule: rev_induct)
  case Nil
  then show ?case by (simp add: lookup_loop_Nil)
next
  case (snoc x xs)
  show ?case
  proof (cases "p_get this (js_join ''/'' (xs @ [x]))")
    case None
    have "lookup_loop this (xs @ [x]) rem tr =
          lookup_loop this xs (x # rem) (tr @ [js_join ''/'' (xs @ [x])])"
      using lookup_loop_miss [OF _ None, of rem tr] by simp
    with snoc.prems have "lookup_loop this xs (x # rem) (tr @ [js_join ''/'' (xs @ [x])]) = (res, pa', rem', tr')"
      by simp
    from snoc.IH [OF this] obtain n where n: "n \<le> length xs"
      "tr' = (tr @ [js_join ''/'' (xs @ [x])]) @ map (\<lambda>i. js_join ''/'' (take (length xs - i) xs)) [0..<n]"
      "(case res of None \<Rightarrow> n = length xs | Some r \<Rightarrow> 0 < n \<and> pa' = take (length xs - n + 1) xs)"
      by blast
    have m: "map (\<lambda>i. js_join ''/'' (take (length (xs @ [x]) - i) (xs @ [x]))) [0..<Suc n]
          = js_join ''/'' (xs @ [x]) # map (\<lambda>i. js_join ''/'' (take (length xs - i) xs)) [0..<n]"
      unfolding upt_conv_Cons [OF zero_less_Suc] map_Suc_upt [symmetric]
      by (simp add: )
    show ?thesis
      apply (rule exI [of _ "Suc n"])
      using n m by (auto split: option.splits simp: Suc_diff_le)
  next
    case (Some r)
    from lookup_loop_hit [OF _ Some, of rem tr] snoc.prems
    have "res = Some r" "pa' = xs @ [x]" "tr' = tr @ [js_join ''/'' (xs @ [x])]" by simp_all
    then show ?thesis
      by (intro exI [of _ 1]) simp
  qed
qed


section \<open>Unfolding p_resolve\<close>

lemma p_resolve_miss:
  "lookup_loop this (js_split (CHR ''/'') path) [] [] = (None, pa, rem, tr) \<Longrightarrow>
   p_resolve this path verbose =
     (Inr None,
      (if verbose then [[''resolving'', path, ''in'', js_join '', '' (fullnames (flds this))]] else []) @
      [[''Unable to completely resolve'', path, ''in'', js_join '', '' (fullnames (flds this))]])"
  by (subst p_resolve.simps) simp

lemma p_resolve_found:
  "lookup_loop this (js_split (CHR ''/'') path) [] [] = (Some r, pa, [], tr) \<Longrightarrow>
   p_resolve this path verbose =
     (Inr (Some r),
      (if verbose then [[''resolving'', path, ''in'', js_join '', '' (fullnames (flds this))]] else []))"
  by (subst p_resolve.simps) (simp add: after_fetch_def)

lemma p_resolve_descend:
  "lookup_loop this (js_split (CHR ''/'') path) [] [] = (Some r, pa, rem, tr) \<Longrightarrow>
   rem \<noteq> [] \<Longrightarrow> cls (flds r) = DomainK \<Longrightarrow>
   fst (p_resolve this path verbose) = fst (p_resolve r (js_join ''/'' rem) verbose)"
  by (subst p_resolve.simps) (simp add: after_fetch_def split: prod.splits)

lemma p_get_None_iff: "p_get this k = None \<longleftrightarrow> k \<notin> fst ` set (kv_map this)"
  by (simp add: p_get_def map_of_eq_None_iff)

lemma p_resolve_all_miss:
  assumes "\<forall>k. 0 < k \<and> k \<le> length (js_split (CHR ''/'') path) \<longrightarrow>
             p_get this (js_join ''/'' (take k (js_split (CHR ''/'') path))) = None"
  shows "p_resolve this path verbose =
     (Inr None,
      (if verbose then [[''resolving'', path, ''in'', js_join '', '' (fullnames (flds this))]] else []) @
      [[''Unable to completely resolve'', path, ''in'', js_join '', '' (fullnames (flds this))]])"
  by (rule p_resolve_miss) (rule lookup_loop_all_miss [OF assms])

section \<open>Resolution: the miss branch\<close>

text \<open>
  C5: when no prefix of the path, of any length, is a child key of the domain,
  \<^verbatim>\<open>p_resolve\<close> resolves to \<^verbatim>\<open>undefined\<close> (it does not reject) and its last
  console line holds the attempted path and the domain's full names.
\<close>

theorem p_resolve_not_found:
  assumes "\<forall>k\<in>{1..length (js_split (CHR ''/'') path)}.
             js_join ''/'' (take k (js_split (CHR ''/'') path)) \<notin> fst ` set (kv_map this)"
  shows "p_resolve this path verbose =
     (Inr None,
      (if verbose then [[''resolving'', path, ''in'', js_join '', '' (fullnames (flds this))]] else []) @
      [[''Unable to completely resolve'', path, ''in'', js_join '', '' (fullnames (flds this))]])"
  using assms by (intro p_resolve_all_miss) (simp add: p_get_None_iff)

theorem p_resolve_not_found_witness:
  "p_resolve (example_domain [''/'', ''/root''] ''k'' [(''a'', example_item)]) ''x/y'' True =
     (Inr None,
      [[''resolving'', ''x/y'', ''in'', ''/, /root''],
       [''Unable to completely resolve'', ''x/y'', ''in'', ''/, /root'']])"
proof -
  have h: "\<forall>k\<in>{1..length (js_split (CHR ''/'') ''x/y'')}.
             js_join ''/'' (take k (js_split (CHR ''/'') ''x/y''))
               \<notin> fst ` set (kv_map (example_domain [''/'', ''/root''] ''k'' [(''a'', example_item)]))"
    by (simp add: atLeastAtMost_upt example_domain_def)
  show ?thesis
    using p_resolve_not_found [OF h, of True] by (simp add: example_domain_def)
qed

section \<open>Resolution: the empty path\<close>

text \<open>
  C6, as the code has it: the empty path splits into one empty segment, so resolving it
  looks the empty key up in the child table; the result is the child stored under the
  empty key when there is one and \<^verbatim>\<open>undefined\<close>, with the diagnostic, otherwise.
\<close>

theorem p_resolve_empty_path:
  "p_resolve this [] verbose =
     (case p_get this [] of
        Some r \<Rightarrow>
          (Inr (Some r),
           (if verbose then [[''resolving'', [], ''in'', js_join '', '' (fullnames (flds this))]] else []))
      | None \<Rightarrow>
          (Inr None,
           (if verbose then [[''resolving'', [], ''in'', js_join '', '' (fullnames (flds this))]] else []) @
           [[''Unable to completely resolve'', [], ''in'', js_join '', '' (fullnames (flds this))]]))"
proof (cases "p_get this []")
  case None
  then have "lookup_loop this (js_split (CHR ''/'') []) [] [] = (None, [], [[]], [[]])"
    by (simp add: lookup_loop_miss lookup_loop_Nil)
  from p_resolve_miss [OF this] None show ?thesis by simp
next
  case (Some r)
  then have "lookup_loop this (js_split (CHR ''/'') []) [] [] = (Some r, [[]], [], [[]])"
    by (simp add: lookup_loop_hit)
  from p_resolve_found [OF this] Some show ?thesis by simp
qed

theorem p_resolve_empty_path_witness:
  "p_resolve (example_domain [''/''] ''k'' [('''', example_item)]) [] False = (Inr (Some example_item), [])"
  using p_resolve_empty_path [of "example_domain [''/''] ''k'' [('''', example_item)]" False]
  by (simp add: p_get_def example_domain_def)

text \<open>
  A domain without children: the empty path resolves to \<^verbatim>\<open>undefined\<close>, not to
  the domain.
\<close>

theorem p_resolve_empty_path_counterexample:
  "fst (p_resolve (example_domain [''/''] ''k'' []) [] False) = Inr None \<and>
   fst (p_resolve (example_domain [''/''] ''k'' []) [] False)
     \<noteq> Inr (Some (example_domain [''/''] ''k'' []))"
  by code_simp

lemma js_split_noslash: "c \<notin> set t \<Longrightarrow> js_split c t = [t]"
  by (induction t) auto

lemma js_split_snoc: "c \<notin> set t \<Longrightarrow> js_split c (s @ c # t) = js_split c s @ [t]"
proof (induction s)
  case Nil
  then show ?case by (simp add: js_split_noslash)
next
  case (Cons x xs)
  then show ?case by (cases "js_split c xs") (auto simp: js_split_nonempty)
qed

lemma leading_empty_candidate:
  "0 < k \<Longrightarrow> js_join ''/'' (take k ([] # segs)) = [] \<or> hd (js_join ''/'' (take k ([] # segs))) = CHR ''/''"
  by (cases k; cases "take (k - 1) segs") (auto simp: js_join_Cons)

section \<open>Resolution: a leading slash\<close>

text \<open>
  C7, as the code has it: a leading slash is not stripped. The path \<open>/p\<close> splits into
  an empty first segment followed by the segments of \<open>p\<close>, so every key that is looked
  up is empty or starts with a slash; on a domain with no such child key, resolving
  \<open>/p\<close> gives \<^verbatim>\<open>undefined\<close> with the diagnostic, whatever \<open>p\<close> resolves to.
\<close>

theorem p_resolve_leading_slash:
  assumes "\<forall>k\<in>fst ` set (kv_map this). k \<noteq> [] \<and> hd k \<noteq> CHR ''/''"
  shows "js_split (CHR ''/'') (CHR ''/'' # p) = [] # js_split (CHR ''/'') p \<and>
         p_resolve this (CHR ''/'' # p) verbose =
           (Inr None,
            (if verbose
             then [[''resolving'', CHR ''/'' # p, ''in'', js_join '', '' (fullnames (flds this))]]
             else []) @
            [[''Unable to completely resolve'', CHR ''/'' # p, ''in'',
              js_join '', '' (fullnames (flds this))]])"
proof
  show sp: "js_split (CHR ''/'') (CHR ''/'' # p) = [] # js_split (CHR ''/'') p"
    by simp
  have "p_get this (js_join ''/'' (take k (js_split (CHR ''/'') (CHR ''/'' # p)))) = None"
    if "0 < k" for k
    using leading_empty_candidate [OF that, of "js_split (CHR ''/'') p"] assms
    unfolding sp p_get_None_iff by auto
  then show "p_resolve this (CHR ''/'' # p) verbose =
           (Inr None,
            (if verbose
             then [[''resolving'', CHR ''/'' # p, ''in'', js_join '', '' (fullnames (flds this))]]
             else []) @
            [[''Unable to completely resolve'', CHR ''/'' # p, ''in'',
              js_join '', '' (fullnames (flds this))]])"
    by (intro p_resolve_all_miss) simp
qed

theorem p_resolve_leading_slash_witness:
  "js_split (CHR ''/'') ''/a'' = [[], ''a''] \<and>
   p_resolve (example_domain [''/''] ''k'' [(''a'', example_item)]) ''/a'' False =
     (Inr None, [[''Unable to completely resolve'', ''/a'', ''in'', ''/'']])"
proof -
  have h: "\<forall>k\<in>fst ` set (kv_map (example_domain [''/''] ''k'' [(''a'', example_item)])).
             k \<noteq> [] \<and> hd k \<noteq> CHR ''/''"
    by (simp add: example_domain_def)
  show ?thesis
    using p_resolve_leading_slash [OF h, of "''a''" False] by (simp add: example_domain_def)
qed

text \<open>A registered name resolves, the same name after a slash does not.\<close>

theorem p_resolve_leading_slash_counterexample:
  "fst (p_resolve (example_domain [''/''] ''k'' [(''a'', example_item)]) ''a'' False)
     = Inr (Some example_item) \<and>
   fst (p_resolve (example_domain [''/''] ''k'' [(''a'', example_item)]) ''/a'' False)
     = Inr None"
  by code_simp

section \<open>Resolution: the number of lookups\<close>

text \<open>
  C4: on a path of N segments the loop of one level of \<^verbatim>\<open>p_resolve\<close> returns
  after at most N calls of \<^verbatim>\<open>p_get\<close>. The i-th key tried (from 0) is the join of
  the first N - i segments: the longest prefix first, one segment less after each miss.
  The segments taken off stand in \<^verbatim>\<open>remainder\<close> in their order of the path.
\<close>

theorem lookup_loop_bounded:
  "\<exists>res pathArray remainder tried.
     lookup_loop this (js_split (CHR ''/'') path) [] [] = (res, pathArray, remainder, tried) \<and>
     length tried \<le> length (js_split (CHR ''/'') path) \<and>
     tried = map (\<lambda>i. js_join ''/'' (take (length (js_split (CHR ''/'') path) - i)
                                      (js_split (CHR ''/'') path)))
                 [0..<length tried] \<and>
     pathArray @ remainder = js_split (CHR ''/'') path \<and>
     (case res of
        None \<Rightarrow> pathArray = [] \<and> length tried = length (js_split (CHR ''/'') path)
      | Some r \<Rightarrow> length tried = Suc (length remainder) \<and>
                  p_get this (js_join ''/'' pathArray) = Some r)"
proof -
  let ?segs = "js_split (CHR ''/'') path"
  obtain res pathArray remainder tried
    where run: "lookup_loop this ?segs [] [] = (res, pathArray, remainder, tried)"
    by (cases "lookup_loop this ?segs [] []") auto
  from lookup_loop_inv [OF run]
  have inv: "pathArray @ remainder = ?segs"
    "case res of None \<Rightarrow> pathArray = []
     | Some r \<Rightarrow> pathArray \<noteq> [] \<and> p_get this (js_join ''/'' pathArray) = Some r"
    by simp_all
  from lookup_loop_trace [OF run] obtain n where n: "n \<le> length ?segs"
    "tried = map (\<lambda>i. js_join ''/'' (take (length ?segs - i) ?segs)) [0..<n]"
    "case res of None \<Rightarrow> n = length ?segs
     | Some r \<Rightarrow> 0 < n \<and> pathArray = take (length ?segs - n + 1) ?segs"
    by auto
  have len: "length tried = n" using n(2) by simp
  have "length remainder = length ?segs - length pathArray"
    using inv(1) [symmetric] by simp
  then have "length tried \<le> length ?segs \<and>
     tried = map (\<lambda>i. js_join ''/'' (take (length ?segs - i) ?segs)) [0..<length tried] \<and>
     pathArray @ remainder = ?segs \<and>
     (case res of
        None \<Rightarrow> pathArray = [] \<and> length tried = length ?segs
      | Some r \<Rightarrow> length tried = Suc (length remainder) \<and>
                  p_get this (js_join ''/'' pathArray) = Some r)"
    using inv n len by (auto split: option.splits)
  with run show ?thesis by blast
qed

theorem lookup_loop_bounded_witness:
  "lookup_loop (example_domain [''/''] ''k'' [(''a'', example_item)])
     (js_split (CHR ''/'') ''a/b/c'') [] [] =
     (Some example_item, [''a''], [''b'', ''c''], [''a/b/c'', ''a/b'', ''a'']) \<and>
   length [''a/b/c'', ''a/b'', ''a''] \<le> length (js_split (CHR ''/'') ''a/b/c'')"
proof -
  have h: "lookup_loop (example_domain [''/''] ''k'' [(''a'', example_item)])
     (js_split (CHR ''/'') ''a/b/c'') [] [] =
     (Some example_item, [''a''], [''b'', ''c''], [''a/b/c'', ''a/b'', ''a''])"
    by code_simp
  show ?thesis
    using lookup_loop_bounded [of "example_domain [''/''] ''k'' [(''a'', example_item)]" "''a/b/c''"] h
    by auto
qed

section \<open>Resolution: descending through a key with a slash\<close>

text \<open>
  C2, as the code has it: when \<open>a/b\<close> is a child key of the root holding a Domain,
  \<open>c\<close> (a single segment) is a child key of that Domain, and the longer key
  \<open>a/b/c\<close> is not itself a child key of the root, then resolving \<open>a/b/c\<close> in the
  root gives the record found by resolving \<open>a/b\<close> in the root and then \<open>c\<close> in the
  Domain.
\<close>

theorem p_resolve_descends:
  assumes "CHR ''/'' \<notin> set c"
    and "p_get root (a @ ''/'' @ b @ ''/'' @ c) = None"
    and "p_get root (a @ ''/'' @ b) = Some d"
    and "cls (flds d) = DomainK"
    and "p_get d c = Some y"
  shows "fst (p_resolve root (a @ ''/'' @ b @ ''/'' @ c) verbose) = Inr (Some y) \<and>
         fst (p_resolve root (a @ ''/'' @ b) verbose) = Inr (Some d) \<and>
         fst (p_resolve d c verbose) = Inr (Some y)"
proof -
  let ?ab = "a @ ''/'' @ b"
  let ?sab = "js_split (CHR ''/'') ?ab"
  have ne: "?sab \<noteq> []" by (rule js_split_nonempty)
  have jab: "js_join ''/'' ?sab = ?ab" by (rule js_join_split)
  have split3: "js_split (CHR ''/'') (a @ ''/'' @ b @ ''/'' @ c) = ?sab @ [c]"
    using js_split_snoc [OF assms(1), of ?ab] by simp
  have j3: "js_join ''/'' (?sab @ [c]) = a @ ''/'' @ b @ ''/'' @ c"
    using js_join_split [of "CHR ''/''" "a @ ''/'' @ b @ ''/'' @ c"] split3 by simp
  have dc: "lookup_loop d (js_split (CHR ''/'') c) [] [] = (Some y, [c], [], [c])"
    using assms(1,5) by (simp add: js_split_noslash lookup_loop_hit)
  have r3: "fst (p_resolve d c verbose) = Inr (Some y)"
    using p_resolve_found [OF dc] by simp
  have "lookup_loop root ?sab [] [] = (Some d, ?sab, [], [?ab])"
    using lookup_loop_hit [OF ne, of root d "[]" "[]"] assms(3) jab by simp
  from p_resolve_found [OF this]
  have r2: "fst (p_resolve root ?ab verbose) = Inr (Some d)" by simp
  have "lookup_loop root (?sab @ [c]) [] [] =
          lookup_loop root ?sab [c] [a @ ''/'' @ b @ ''/'' @ c]"
    using lookup_loop_miss [of "?sab @ [c]" root "[]" "[]"] assms(2) j3 by simp
  also have "\<dots> = (Some d, ?sab, [c], [a @ ''/'' @ b @ ''/'' @ c, ?ab])"
    using lookup_loop_hit [OF ne, of root d "[c]"] assms(3) jab by simp
  finally have "lookup_loop root (js_split (CHR ''/'') (a @ ''/'' @ b @ ''/'' @ c)) [] [] =
      (Some d, ?sab, [c], [a @ ''/'' @ b @ ''/'' @ c, ?ab])"
    using split3 by simp
  from p_resolve_descend [OF this _ assms(4), of verbose]
  have r1: "fst (p_resolve root (a @ ''/'' @ b @ ''/'' @ c) verbose) = Inr (Some y)"
    using r3 by simp
  show ?thesis using r1 r2 r3 by simp
qed

theorem p_resolve_descends_witness:
  "fst (p_resolve example_root ''a/b/c'' False) = Inr (Some example_item) \<and>
   fst (p_resolve example_root ''a/b'' False) = Inr (Some example_sub) \<and>
   fst (p_resolve example_sub ''c'' False) = Inr (Some example_item)"
proof -
  have h1: "CHR ''/'' \<notin> set ''c''" by simp
  have h2: "p_get example_root (''a'' @ ''/'' @ ''b'' @ ''/'' @ ''c'') = None"
    by (simp add: p_get_def example_root_def example_domain_def)
  have h3: "p_get example_root (''a'' @ ''/'' @ ''b'') = Some example_sub"
    by (simp add: p_get_def example_root_def example_domain_def)
  have h4: "cls (flds example_sub) = DomainK"
    by (simp add: example_sub_def example_domain_def)
  have h5: "p_get example_sub ''c'' = Some example_item"
    by (simp add: p_get_def example_sub_def example_domain_def)
  show ?thesis
    using p_resolve_descends [OF h1 h2 h3 h4 h5, of False] by simp
qed

text \<open>
  With \<open>a/b/c\<close> also registered in the root, the longest prefix wins: the root's own
  entry is returned, not the entry \<open>c\<close> of the Domain under \<open>a/b\<close>.
\<close>

theorem p_resolve_descends_counterexample:
  "p_get example_root_shadowed ''a/b'' = Some example_sub \<and>
   cls (flds example_sub) = DomainK \<and>
   p_get example_sub ''c'' = Some example_item \<and>
   fst (p_resolve example_root_shadowed ''a/b'' False) = Inr (Some example_sub) \<and>
   fst (p_resolve example_sub ''c'' False) = Inr (Some example_item) \<and>
   fst (p_resolve example_root_shadowed ''a/b/c'' False) = Inr (Some example_other) \<and>
   example_other \<noteq> example_item"
  by code_simp

section \<open>JSON.stringify is injective on strings and on arrays of strings\<close>

lemma hex_digit_inj:
  assumes "m < 16" "n < 16" "hex_digit m = hex_digit n"
  shows "m = n"
proof -
  have d: "distinct ''0123456789abcdef''" by simp
  have l: "length ''0123456789abcdef'' = 16" by simp
  from assms show ?thesis
    unfolding hex_digit_def
    using nth_eq_iff_index_eq [OF d, of m n] l by simp
qed

lemma of_char_hex_eq:
  assumes "hex_digit (of_char a div 16) = hex_digit (of_char b div 16)"
    and "hex_digit (of_char a mod 16) = hex_digit (of_char b mod 16)"
  shows "a = b"
proof -
  have la: "(of_char a :: nat) < 256" and lb: "(of_char b :: nat) < 256"
    by (simp_all add: of_char_def)
  have "(of_char a :: nat) div 16 = of_char b div 16"
    using la lb by (intro hex_digit_inj [OF _ _ assms(1)]) arith+
  moreover have "(of_char a :: nat) mod 16 = of_char b mod 16"
    by (intro hex_digit_inj [OF _ _ assms(2)]) auto
  ultimately have "(of_char a :: nat) = of_char b"
    by (metis div_mult_mod_eq)
  then show ?thesis by (simp add: )
qed

lemma json_escape_cases:
  "json_escape a = [a] \<and> a \<noteq> CHR 0x5C \<and> a \<noteq> CHR 0x22 \<or>
   (\<exists>x. json_escape a = [CHR 0x5C, x] \<and> x \<noteq> CHR ''u'') \<or>
   json_escape a = [CHR 0x5C, CHR ''u'', CHR ''0'', CHR ''0'',
              hex_digit (of_char a div 16), hex_digit (of_char a mod 16)]"
  by (simp add: json_escape_def)

lemma json_escape_short_inj:
  "json_escape a = [CHR 0x5C, x] \<Longrightarrow> json_escape b = [CHR 0x5C, x] \<Longrightarrow> a = b"
  by (auto simp: json_escape_def split: if_splits)

lemma json_escape_prefix:
  assumes "json_escape a @ r = json_escape b @ r'"
  shows "a = b \<and> r = r'"
proof -
  have "a = b"
    using json_escape_cases [of a] json_escape_cases [of b] assms
    by (elim disjE exE conjE) (auto dest: json_escape_short_inj of_char_hex_eq)
  with assms show ?thesis by simp
qed

lemma json_escape_no_quote: "json_escape a @ r \<noteq> CHR 0x22 # r'"
  using json_escape_cases [of a] by auto

lemma json_body_inj:
  "concat (map json_escape s) @ CHR 0x22 # r = concat (map json_escape s') @ CHR 0x22 # r'
     \<Longrightarrow> s = s' \<and> r = r'"
proof (induction s arbitrary: s')
  case Nil
  then show ?case
    using json_escape_no_quote by (cases s') (auto simp: eq_commute [of "CHR 0x22 # _"])
next
  case (Cons a s)
  show ?case
  proof (cases s')
    case Nil
    with Cons.prems show ?thesis using json_escape_no_quote by auto
  next
    case (Cons b t)
    with Cons.prems have "json_escape a @ (concat (map json_escape s) @ CHR 0x22 # r)
        = json_escape b @ (concat (map json_escape t) @ CHR 0x22 # r')" by simp
    from json_escape_prefix [OF this] Cons.IH [of t] Cons show ?thesis by simp
  qed
qed

lemma json_string_inj: "json_string s @ r = json_string s' @ r' \<Longrightarrow> s = s' \<and> r = r'"
  using json_body_inj [of s r s' r'] by (simp add: json_string_def)

lemma json_string_head: "json_string s @ r \<noteq> CHR '']'' # r'"
  by (simp add: json_string_def)

lemma json_items_inj:
  "js_join '','' (map json_string xs) @ CHR '']'' # r =
   js_join '','' (map json_string ys) @ CHR '']'' # r' \<Longrightarrow> xs = ys \<and> r = r'"
proof (induction xs arbitrary: ys)
  case Nil
  then show ?case
  proof (cases ys)
    case (Cons y yt)
    with Nil show ?thesis
      using json_string_head [of y] by (cases yt) (auto simp: json_string_def)
  qed simp
next
  case (Cons x xt)
  note outer_prems = Cons.prems and outer_IH = Cons.IH
  show ?case
  proof (cases ys)
    case Nil
    with outer_prems show ?thesis by (cases xt) (auto simp: json_string_def)
  next
    case (Cons y yt)
    show ?thesis
    proof (cases xt)
      case Nil
      note xn = Nil
      show ?thesis
      proof (cases yt)
        case Nil
        with xn Cons outer_prems json_string_inj [of x "CHR '']'' # r" y "CHR '']'' # r'"]
        show ?thesis by simp
      next
        case (Cons z zt)
        with xn \<open>ys = y # yt\<close> outer_prems
        have "json_string x @ (CHR '']'' # r) = json_string y @ ('','' @ js_join '','' (map json_string (z # zt)) @ CHR '']'' # r')"
          by simp
        from json_string_inj [OF this] show ?thesis by simp
      qed
    next
      case (Cons w wt)
      note xc = Cons
      show ?thesis
      proof (cases yt)
        case Nil
        with xc \<open>ys = y # yt\<close> outer_prems
        have "json_string x @ ('','' @ js_join '','' (map json_string (w # wt)) @ CHR '']'' # r) = json_string y @ (CHR '']'' # r')"
          by simp
        from json_string_inj [OF this] show ?thesis by simp
      next
        case (Cons z zt)
        with xc \<open>ys = y # yt\<close> outer_prems
        have "json_string x @ ('','' @ js_join '','' (map json_string xt) @ CHR '']'' # r)
            = json_string y @ ('','' @ js_join '','' (map json_string yt) @ CHR '']'' # r')"
          by simp
        from json_string_inj [OF this] outer_IH [of yt] \<open>ys = y # yt\<close> show ?thesis by simp
      qed
    qed
  qed
qed

lemma json_array_inj: "json_array xs @ r = json_array ys @ r' \<Longrightarrow> xs = ys \<and> r = r'"
  using json_items_inj [of xs r ys r'] by (simp add: json_array_def)

lemma signable_shape:
  "\<exists>rest. signable this domains name dt =
     ''{'' @ json_string ''date'' @ '':'' @ json_string dt @ '','' @
     json_string ''domains'' @ '':'' @ json_array domains @ rest"
  by (cases "keys (flds this)"; cases "publicurls (flds this)"; cases "expires (flds this)")
     (simp_all add: signable_def json_object_def)

lemma signable_domains_inj:
  assumes "signable a F n d = signable b F' n' d"
  shows "F = F'"
proof -
  obtain r1 where 1: "signable a F n d =
     ''{'' @ json_string ''date'' @ '':'' @ json_string d @ '','' @
     json_string ''domains'' @ '':'' @ json_array F @ r1"
    using signable_shape by blast
  obtain r2 where 2: "signable b F' n' d =
     ''{'' @ json_string ''date'' @ '':'' @ json_string d @ '','' @
     json_string ''domains'' @ '':'' @ json_array F' @ r2"
    using signable_shape by blast
  from assms 1 2 have "json_array F @ r1 = json_array F' @ r2" by simp
  then show ?thesis using json_array_inj by blast
qed

section \<open>Signing and verifying\<close>

lemma signable_flds:
  "keys (flds a) = keys (flds b) \<Longrightarrow> publicurls (flds a) = publicurls (flds b) \<Longrightarrow>
   expires (flds a) = expires (flds b) \<Longrightarrow> signable a domains name dt = signable b domains name dt"
  by (simp add: signable_def)

lemma sign_Inr:
  "sign c now this name r = Inr r' \<Longrightarrow>
     \<exists>kp. keypair (flds this) = Some kp \<and>
       r' = Obj ((flds r)\<lparr>signatures := signatures (flds r) @
                 [\<lparr>date = now,
                   signature = kp_sign c kp (signable r (fullnames (flds this)) name now),
                   signedby = signingexport c kp\<rparr>]\<rparr>) (kv_map r)"
  by (auto simp: sign_def Let_def split: option.splits)

lemma sign_Some:
  "keypair (flds this) = Some kp \<Longrightarrow>
     sign c now this name r =
       Inr (Obj ((flds r)\<lparr>signatures := signatures (flds r) @
                 [\<lparr>date = now,
                   signature = kp_sign c kp (signable r (fullnames (flds this)) name now),
                   signedby = signingexport c kp\<rparr>]\<rparr>) (kv_map r))"
  by (simp add: sign_def Let_def)

lemma verify_Some:
  "keys (flds this) = Some ks \<Longrightarrow>
   verify c this name sub =
     Inr (\<exists>s\<in>set (signatures (flds sub)). signedby s \<in> set ks \<and>
            kp_verify c (signedby s) (signable sub (fullnames (flds this)) name (date s))
              (signature s))"
  by (auto simp: verify_def list_ex_iff)

lemma verify_True_keys: "verify c this name sub = Inr True \<Longrightarrow> \<exists>ks. keys (flds this) = Some ks"
  by (auto simp: verify_def split: if_splits option.splits)

lemma example_domain_p_new:
  "p_new toy_crypto
     (Obj \<lparr>cls = DomainK, fullnames = fns, keys = None, publicurls = None,
           expires = None, signatures = [], keypair = Some kp, master = True,
           autoset = False, urls = []\<rparr> m) = example_domain fns kp m"
  by (simp add: p_new_def example_domain_def toy_crypto_def)

lemma toy_crypto_correct: "crypto_correct toy_crypto"
  by (simp add: crypto_correct_def toy_crypto_def)

lemma toy_crypto_binding: "crypto_binding toy_crypto"
  by (auto simp: crypto_binding_def toy_crypto_def dest: json_string_inj)

subsection \<open>Registration signs a record that verifies\<close>

text \<open>
  C1: for a domain whose key pair's exported signing key is among its keys, and a
  signature primitive whose signatures verify under the exported key, \<^verbatim>\<open>p_register\<close>
  does not reject, the assertion prints nothing, and \<^verbatim>\<open>verify\<close> of the registered
  record under the same name is true, for the domain as it was and as it is after the
  table write.
\<close>

theorem p_register_verifies:
  assumes "crypto_correct c"
    and "keypair (flds this) = Some kp"
    and "keys (flds this) = Some ks"
    and "signingexport c kp \<in> set ks"
  shows "rejected (p_register c assert_throws now this name registrable) = None \<and>
         console_out (p_register c assert_throws now this name registrable) = [] \<and>
         verify c (domain_after (p_register c assert_throws now this name registrable)) name
           (registered (p_register c assert_throws now this name registrable)) = Inr True \<and>
         verify c this name (registered (p_register c assert_throws now this name registrable))
           = Inr True"
proof -
  define reg where "reg =
        (case registrable of
           Record r \<Rightarrow> r
         | Other pu u \<Rightarrow>
             new_Name (map (\<lambda>fn. js_join ''/'' [fn, name]) (fullnames (flds this)))
                      (case pu of Some x \<Rightarrow> Some x | None \<Rightarrow> u))"
  define reg' where "reg' = Obj ((flds reg)\<lparr>signatures := signatures (flds reg) @
                 [\<lparr>date = now,
                   signature = kp_sign c kp (signable reg (fullnames (flds this)) name now),
                   signedby = signingexport c kp\<rparr>]\<rparr>) (kv_map reg)"
  have s: "sign c now this name reg = Inr reg'"
    unfolding reg'_def by (rule sign_Some [OF assms(2)])
  have sb: "signable reg' (fullnames (flds this)) name now = signable reg (fullnames (flds this)) name now"
    by (rule signable_flds) (simp_all add: reg'_def)
  have v: "verify c this name reg' = Inr True"
    unfolding verify_Some [OF assms(3)]
    using assms(1,4) sb
    by (auto simp: reg'_def crypto_correct_def intro!: bexI [of _ "\<lparr>date = now,
                   signature = kp_sign c kp (signable reg (fullnames (flds this)) name now),
                   signedby = signingexport c kp\<rparr>"])
  have pr: "p_register c assert_throws now this name registrable =
      \<lparr>rejected = None, domain_after = fst (p_set this name reg'), registered = reg',
       console_out = [], published = snd (p_set this name reg')\<rparr>"
    using s v by (simp add: p_register_def reg_def [symmetric])
  have "keys (flds (fst (p_set this name reg'))) = Some ks"
       "fullnames (flds (fst (p_set this name reg'))) = fullnames (flds this)"
    using assms(3) by (simp_all add: p_set_def)
  then have "verify c (fst (p_set this name reg')) name reg' = verify c this name reg'"
    using assms(3) by (simp add: verify_Some)
  with v pr show ?thesis by simp
qed

theorem p_register_verifies_witness:
  "rejected (p_register toy_crypto True example_now (example_domain [''/''] ''k'' []) ''item1''
      (Other None (Some [''loc://item1'']))) = None \<and>
   verify toy_crypto (example_domain [''/''] ''k'' []) ''item1''
     (registered (p_register toy_crypto True example_now (example_domain [''/''] ''k'' [])
        ''item1'' (Other None (Some [''loc://item1''])))) = Inr True"
proof -
  have h1: "keypair (flds (example_domain [''/''] ''k'' [])) = Some ''k''"
    by (simp add: example_domain_def)
  have h2: "keys (flds (example_domain [''/''] ''k'' [])) = Some [''k'']"
    by (simp add: example_domain_def)
  have h3: "signingexport toy_crypto ''k'' \<in> set [''k'']"
    by (simp add: toy_crypto_def)
  show ?thesis
    using p_register_verifies [OF toy_crypto_correct h1 h2 h3, where assert_throws = True
        and now = example_now and name = "''item1''"
        and registrable = "Other None (Some [''loc://item1''])"]
    by simp
qed

subsection \<open>What verify returns\<close>

text \<open>
  C3, as the code has it: for a domain whose \<^verbatim>\<open>keys\<close> is a list, \<^verbatim>\<open>verify\<close>
  does not raise and returns true exactly when some signature of the child whose signer is
  among the keys verifies against the child's signable, computed with the domain's full
  names and that signature's date; with no signer among the keys it returns false.
\<close>

theorem verify_iff:
  assumes "keys (flds this) = Some ks"
  shows "verify c this name sub =
     Inr (\<exists>s\<in>set (signatures (flds sub)). signedby s \<in> set ks \<and>
            kp_verify c (signedby s) (signable sub (fullnames (flds this)) name (date s))
              (signature s))"
  using assms by (rule verify_Some)

theorem verify_iff_witness:
  "verify toy_crypto (example_domain [''/''] ''k'' []) ''item1''
     (signed_by toy_crypto example_now (example_domain [''/''] ''k'' []) ''item1'' example_item)
     = Inr True \<and>
   verify toy_crypto (example_domain [''/''] ''other'' []) ''item1''
     (signed_by toy_crypto example_now (example_domain [''/''] ''k'' []) ''item1'' example_item)
     = Inr False"
proof -
  have h1: "keys (flds (example_domain [''/''] ''k'' [])) = Some [''k'']"
    by (simp add: example_domain_def)
  have h2: "keys (flds (example_domain [''/''] ''other'' [])) = Some [''other'']"
    by (simp add: example_domain_def)
  show ?thesis
    unfolding verify_iff [OF h1] verify_iff [OF h2]
    by (simp add: signed_by_def sign_def example_domain_def toy_crypto_def signable_def
        example_item_def new_Name_def)
qed

text \<open>
  A Domain whose \<^verbatim>\<open>keys\<close> is undefined, and a child with one signature:
  \<^verbatim>\<open>this.keys.includes\<close> is a TypeError.
\<close>

theorem verify_iff_counterexample:
  "signatures (flds (signed_by toy_crypto example_now (example_domain [''/''] ''k'' []) ''item1''
      example_item)) \<noteq> [] \<and>
   verify toy_crypto example_keyless ''item1''
     (signed_by toy_crypto example_now (example_domain [''/''] ''k'' []) ''item1'' example_item)
     = Inl TypeError"
  by code_simp

subsection \<open>Registration under any name\<close>

lemma verify_fresh_signature:
  assumes "crypto_correct c"
    and "keys (flds this) = Some ks"
    and "signingexport c kp \<in> set ks"
  shows "verify c this name
           (Obj ((flds r)\<lparr>signatures := signatures (flds r) @
                   [\<lparr>date = now,
                     signature = kp_sign c kp (signable r (fullnames (flds this)) name now),
                     signedby = signingexport c kp\<rparr>]\<rparr>) (kv_map r)) = Inr True"
proof -
  let ?s = "\<lparr>date = now,
             signature = kp_sign c kp (signable r (fullnames (flds this)) name now),
             signedby = signingexport c kp\<rparr>"
  let ?r' = "Obj ((flds r)\<lparr>signatures := signatures (flds r) @ [?s]\<rparr>) (kv_map r)"
  have sb: "signable ?r' (fullnames (flds this)) name now =
            signable r (fullnames (flds this)) name now"
    by (rule signable_flds) simp_all
  have "kp_verify c (signedby ?s) (signable ?r' (fullnames (flds this)) name (date ?s))
          (signature ?s)"
    using assms(1) sb by (simp add: crypto_correct_def)
  moreover have "?s \<in> set (signatures (flds ?r'))" and "signedby ?s \<in> set ks"
    using assms(3) by simp_all
  ultimately show ?thesis
    unfolding verify_Some [OF assms(2)] by blast
qed

text \<open>
  C8, as the code has it: \<^verbatim>\<open>p_register\<close> does not inspect the name. On a domain
  whose key pair's exported signing key is among its keys, with a signature primitive
  whose signatures verify under the exported key, for every name, the empty one and those
  with a slash included, it does not reject, the assertion holds, exactly one signature is
  pushed onto the record and the record is written into the table under that name.
\<close>

theorem p_register_any_name:
  assumes "crypto_correct c"
    and "keypair (flds this) = Some kp"
    and "keys (flds this) = Some ks"
    and "signingexport c kp \<in> set ks"
  shows "rejected (p_register c assert_throws now this name (Record r)) = None \<and>
         console_out (p_register c assert_throws now this name (Record r)) = [] \<and>
         signatures (flds (registered (p_register c assert_throws now this name (Record r)))) =
           signatures (flds r) @
             [\<lparr>date = now,
               signature = kp_sign c kp (signable r (fullnames (flds this)) name now),
               signedby = signingexport c kp\<rparr>] \<and>
         p_get (domain_after (p_register c assert_throws now this name (Record r))) name =
           Some (registered (p_register c assert_throws now this name (Record r)))"
proof -
  have "verify c this name (Obj ((flds r)\<lparr>signatures := signatures (flds r) @
                 [\<lparr>date = now,
                   signature = kp_sign c kp (signable r (fullnames (flds this)) name now),
                   signedby = signingexport c kp\<rparr>]\<rparr>) (kv_map r)) = Inr True"
    by (rule verify_fresh_signature [OF assms(1,3,4)])
  then show ?thesis
    by (simp add: p_register_def sign_Some [OF assms(2)] p_set_def p_get_def after_fetch_def
        update_conv')
qed

theorem p_register_any_name_witness:
  "rejected (p_register toy_crypto False example_now (example_domain [''/''] ''k'' []) ''x/y''
      (Record example_item)) = None \<and>
   length (signatures (flds (registered
      (p_register toy_crypto False example_now (example_domain [''/''] ''k'' []) ''x/y''
         (Record example_item))))) = 1 \<and>
   p_get (domain_after
      (p_register toy_crypto False example_now (example_domain [''/''] ''k'' []) ''x/y''
         (Record example_item))) ''x/y'' =
     Some (registered
      (p_register toy_crypto False example_now (example_domain [''/''] ''k'' []) ''x/y''
         (Record example_item)))"
proof -
  have h1: "keypair (flds (example_domain [''/''] ''k'' [])) = Some ''k''"
    by (simp add: example_domain_def)
  have h2: "keys (flds (example_domain [''/''] ''k'' [])) = Some [''k'']"
    by (simp add: example_domain_def)
  have h3: "signingexport toy_crypto ''k'' \<in> set [''k'']"
    by (simp add: toy_crypto_def)
  show ?thesis
    using p_register_any_name [OF toy_crypto_correct h1 h2 h3, where assert_throws = False
        and now = example_now and name = "''x/y''" and r = example_item]
    by (simp add: example_item_def new_Name_def)
qed

text \<open>
  The empty name and a name with a slash are signed and stored, whether a failed
  assertion would throw or not.
\<close>

theorem p_register_any_name_counterexample:
  "rejected (p_register toy_crypto True example_now (example_domain [''/''] ''k'' []) ''''
      (Record example_item)) = None \<and>
   length (signatures (flds (registered
      (p_register toy_crypto True example_now (example_domain [''/''] ''k'' []) ''''
         (Record example_item))))) = 1 \<and>
   map fst (kv_map (domain_after
      (p_register toy_crypto True example_now (example_domain [''/''] ''k'' []) ''''
         (Record example_item)))) = ['''']  \<and>
   rejected (p_register toy_crypto False example_now (example_domain [''/''] ''k'' []) ''a/b''
      (Record example_item)) = None \<and>
   length (signatures (flds (registered
      (p_register toy_crypto False example_now (example_domain [''/''] ''k'' []) ''a/b''
         (Record example_item))))) = 1 \<and>
   map fst (kv_map (domain_after
      (p_register toy_crypto False example_now (example_domain [''/''] ''k'' []) ''a/b''
         (Record example_item)))) = [''a/b'']"
  by code_simp

subsection \<open>Renaming the verifying domain\<close>

text \<open>
  C9, as the code has it: with a signature primitive that accepts a signature for no
  payload but the signed one, a signature made while the domain's full names were \<open>F\<close>
  does not count once they are \<open>F'\<close>, different from \<open>F\<close>: \<^verbatim>\<open>verify\<close> of the
  signed record equals \<^verbatim>\<open>verify\<close> of the record as it was before that signature,
  and is false when the record had no signature before.
\<close>

theorem verify_after_rename:
  assumes "crypto_binding c"
    and "keys (flds this) = Some ks"
    and "F' \<noteq> fullnames (flds this)"
    and "sign c now this name r = Inr r'"
  shows "verify c (Obj ((flds this)\<lparr>fullnames := F'\<rparr>) (kv_map this)) name r' =
           verify c (Obj ((flds this)\<lparr>fullnames := F'\<rparr>) (kv_map this)) name r \<and>
         (signatures (flds r) = [] \<longrightarrow>
            verify c (Obj ((flds this)\<lparr>fullnames := F'\<rparr>) (kv_map this)) name r' = Inr False)"
proof -
  let ?v = "Obj ((flds this)\<lparr>fullnames := F'\<rparr>) (kv_map this)"
  from sign_Inr [OF assms(4)] obtain kp where kp: "keypair (flds this) = Some kp"
    and r': "r' = Obj ((flds r)\<lparr>signatures := signatures (flds r) @
                 [\<lparr>date = now,
                   signature = kp_sign c kp (signable r (fullnames (flds this)) name now),
                   signedby = signingexport c kp\<rparr>]\<rparr>) (kv_map r)"
    by blast
  have kv: "keys (flds ?v) = Some ks" and fv: "fullnames (flds ?v) = F'"
    using assms(2) by simp_all
  have sb: "signable r' F' name dt = signable r F' name dt" for dt
    by (rule signable_flds) (simp_all add: r')
  have new: "\<not> kp_verify c pk (signable r F' name now)
               (kp_sign c kp (signable r (fullnames (flds this)) name now))" for pk
  proof
    assume "kp_verify c pk (signable r F' name now)
               (kp_sign c kp (signable r (fullnames (flds this)) name now))"
    with assms(1) have "signable r F' name now = signable r (fullnames (flds this)) name now"
      unfolding crypto_binding_def by blast
    from signable_domains_inj [OF this] assms(3) show False by simp
  qed
  have eq: "verify c ?v name r' = verify c ?v name r"
    unfolding verify_Some [OF kv] fv sb using new by (auto simp: r')
  moreover have "verify c ?v name r = Inr False" if "signatures (flds r) = []"
    using that by (simp add: verify_def)
  ultimately show ?thesis by simp
qed

theorem verify_after_rename_witness:
  "verify toy_crypto (example_domain [''/new''] ''k'' []) ''item1''
     (signed_by toy_crypto example_now (example_domain [''/old''] ''k'' []) ''item1'' example_item)
   = Inr False \<and>
   verify toy_crypto (example_domain [''/old''] ''k'' []) ''item1''
     (signed_by toy_crypto example_now (example_domain [''/old''] ''k'' []) ''item1'' example_item)
   = Inr True"
proof -
  let ?d = "example_domain [''/old''] ''k'' []"
  have h2: "keys (flds ?d) = Some [''k'']" by (simp add: example_domain_def)
  have h3: "[''/new''] \<noteq> fullnames (flds ?d)" by (simp add: example_domain_def)
  have h4: "sign toy_crypto example_now ?d ''item1'' example_item =
              Inr (signed_by toy_crypto example_now ?d ''item1'' example_item)"
    by (simp add: signed_by_def sign_def example_domain_def)
  have e: "signatures (flds example_item) = []" by (simp add: example_item_def new_Name_def)
  have v: "Obj ((flds ?d)\<lparr>fullnames := [''/new'']\<rparr>) (kv_map ?d) = example_domain [''/new''] ''k'' []"
    by (simp add: example_domain_def)
  have t: "verify toy_crypto (example_domain [''/old''] ''k'' []) ''item1''
     (signed_by toy_crypto example_now (example_domain [''/old''] ''k'' []) ''item1'' example_item)
   = Inr True"
    by (simp add: verify_def signed_by_def sign_def example_domain_def toy_crypto_def
        example_item_def new_Name_def signable_def)
  from verify_after_rename [OF toy_crypto_binding h2 h3 h4] e
  have "verify toy_crypto (Obj ((flds ?d)\<lparr>fullnames := [''/new'']\<rparr>) (kv_map ?d)) ''item1''
     (signed_by toy_crypto example_now ?d ''item1'' example_item) = Inr False"
    by blast
  with t show ?thesis unfolding v by simp
qed

text \<open>
  A record signed while the domain was \<open>/old\<close>, signed again after the rename to
  \<open>/new\<close>: when the domain is renamed back to \<open>/old\<close>, \<^verbatim>\<open>verify\<close> is true.
\<close>

theorem verify_after_rename_counterexample:
  "[''/old''] \<noteq> [''/new''] \<and>
   sign toy_crypto example_later (example_domain [''/new''] ''k'' []) ''item1''
     (signed_by toy_crypto example_now (example_domain [''/old''] ''k'' []) ''item1'' example_item)
   = Inr (signed_by toy_crypto example_later (example_domain [''/new''] ''k'' []) ''item1''
     (signed_by toy_crypto example_now (example_domain [''/old''] ''k'' []) ''item1'' example_item)) \<and>
   verify toy_crypto (example_domain [''/old''] ''k'' []) ''item1''
     (signed_by toy_crypto example_later (example_domain [''/new''] ''k'' []) ''item1''
       (signed_by toy_crypto example_now (example_domain [''/old''] ''k'' []) ''item1'' example_item))
   = Inr True"
  by (simp add: verify_def signed_by_def sign_def example_domain_def toy_crypto_def
        example_item_def new_Name_def signable_def)

subsection \<open>The signable does not read the unsigned fields\<close>

text \<open>
  C10: two records with the same \<^verbatim>\<open>keys\<close>, \<^verbatim>\<open>_publicurls\<close> and
  \<^verbatim>\<open>expires\<close> have the same signable for the same domains, name and date, whatever
  their signatures and full names. So a further \<^verbatim>\<open>sign\<close>, by any domain under any
  name, leaves every signable of the record as it was, and a record that verified still
  verifies.
\<close>

theorem signable_ignores_unsigned_fields:
  "(keys (flds a) = keys (flds b) \<and> publicurls (flds a) = publicurls (flds b) \<and>
    expires (flds a) = expires (flds b) \<longrightarrow>
      signable a domains name dt = signable b domains name dt) \<and>
   (sign c now signer name2 r = Inr r' \<longrightarrow>
      signable r' domains name dt = signable r domains name dt \<and>
      (verify c this name r = Inr True \<longrightarrow> verify c this name r' = Inr True))"
proof (intro conjI impI)
  assume "keys (flds a) = keys (flds b) \<and> publicurls (flds a) = publicurls (flds b) \<and>
    expires (flds a) = expires (flds b)"
  then show "signable a domains name dt = signable b domains name dt"
    by (intro signable_flds) simp_all
next
  assume s: "sign c now signer name2 r = Inr r'"
  from sign_Inr [OF s] obtain kp where
    r': "r' = Obj ((flds r)\<lparr>signatures := signatures (flds r) @
                 [\<lparr>date = now,
                   signature = kp_sign c kp (signable r (fullnames (flds signer)) name2 now),
                   signedby = signingexport c kp\<rparr>]\<rparr>) (kv_map r)"
    by blast
  show "signable r' domains name dt = signable r domains name dt"
    by (rule signable_flds) (simp_all add: r')
next
  assume s: "sign c now signer name2 r = Inr r'" and v: "verify c this name r = Inr True"
  from sign_Inr [OF s] obtain kp where
    r': "r' = Obj ((flds r)\<lparr>signatures := signatures (flds r) @
                 [\<lparr>date = now,
                   signature = kp_sign c kp (signable r (fullnames (flds signer)) name2 now),
                   signedby = signingexport c kp\<rparr>]\<rparr>) (kv_map r)"
    by blast
  have sb: "signable r' ds n dt = signable r ds n dt" for ds n dt
    by (rule signable_flds) (simp_all add: r')
  from verify_True_keys [OF v] obtain ks where ks: "keys (flds this) = Some ks" by blast
  have sg: "set (signatures (flds r)) \<subseteq> set (signatures (flds r'))"
    by (auto simp: r')
  from v obtain s where "s \<in> set (signatures (flds r))" "signedby s \<in> set ks"
    "kp_verify c (signedby s) (signable r (fullnames (flds this)) name (date s)) (signature s)"
    unfolding verify_Some [OF ks] by auto
  with sg show "verify c this name r' = Inr True"
    unfolding verify_Some [OF ks] sb by auto
qed

theorem signable_ignores_unsigned_fields_witness:
  "signable (signed_by toy_crypto example_now (example_domain [''/''] ''k'' []) ''item1'' example_item)
      [''/''] ''item1'' example_now =
   signable example_item [''/''] ''item1'' example_now \<and>
   signable (signed_by toy_crypto example_later (example_domain [''/elsewhere''] ''k2'' []) ''copy''
      (signed_by toy_crypto example_now (example_domain [''/''] ''k'' []) ''item1'' example_item))
      [''/''] ''item1'' example_now =
   signable (signed_by toy_crypto example_now (example_domain [''/''] ''k'' []) ''item1'' example_item)
      [''/''] ''item1'' example_now \<and>
   verify toy_crypto (example_domain [''/''] ''k'' []) ''item1''
     (signed_by toy_crypto example_later (example_domain [''/elsewhere''] ''k2'' []) ''copy''
      (signed_by toy_crypto example_now (example_domain [''/''] ''k'' []) ''item1'' example_item))
   = Inr True"
proof -
  let ?r1 = "signed_by toy_crypto example_now (example_domain [''/''] ''k'' []) ''item1'' example_item"
  let ?r2 = "signed_by toy_crypto example_later (example_domain [''/elsewhere''] ''k2'' []) ''copy'' ?r1"
  have f: "keys (flds ?r1) = keys (flds example_item) \<and>
           publicurls (flds ?r1) = publicurls (flds example_item) \<and>
           expires (flds ?r1) = expires (flds example_item)"
    by (simp add: signed_by_def sign_def example_domain_def)
  have s: "sign toy_crypto example_later (example_domain [''/elsewhere''] ''k2'' []) ''copy'' ?r1
             = Inr ?r2"
    by (simp add: signed_by_def [of _ example_later] sign_def example_domain_def)
  have v: "verify toy_crypto (example_domain [''/''] ''k'' []) ''item1'' ?r1 = Inr True"
    by (simp add: verify_def signed_by_def sign_def example_domain_def toy_crypto_def
        example_item_def new_Name_def signable_def)
  note T = signable_ignores_unsigned_fields [where a = ?r1 and b = example_item
        and c = toy_crypto and now = example_later
        and signer = "example_domain [''/elsewhere''] ''k2'' []" and ?name2.0 = "''copy''"
        and r = ?r1 and r' = ?r2 and domains = "[''/'']" and name = "''item1''"
        and dt = example_now and this = "example_domain [''/''] ''k'' []"]
  have c1: "signable ?r1 [''/''] ''item1'' example_now =
      signable example_item [''/''] ''item1'' example_now"
    by (rule T [THEN conjunct1, THEN mp, OF f])
  have c2: "signable ?r2 [''/''] ''item1'' example_now =
      signable ?r1 [''/''] ''item1'' example_now"
    by (rule T [THEN conjunct2, THEN mp, OF s, THEN conjunct1])
  have c3: "verify toy_crypto (example_domain [''/''] ''k'' []) ''item1'' ?r2 = Inr True"
    by (rule T [THEN conjunct2, THEN mp, OF s, THEN conjunct2, THEN mp, OF v])
  show ?thesis using c1 c2 c3 by (intro conjI)
qed

end
